theory Spec2Isabelle
  imports Complex_Main "HOL-Library.List_Lexorder"
begin

section \<open>Data model\<close>

text \<open>
  The program works on Python floats. They are modelled here by exact rationals, so every
  statement below is about the algorithm under exact arithmetic. A solution
  (\<open>SOLUTION = tuple[int, ...]\<close>) is a list of indices, a Python \<open>set\<close> of solutions is a
  HOL set of such lists, and the two exceptions the core can raise are values of
  \<open>error\<close>: \<open>min()\<close> of an empty sequence raises \<open>ValueError\<close>, \<open>solutions[0]\<close> on an
  empty sequence raises \<open>IndexError\<close>.
\<close>

type_synonym SOLUTION = "nat list"

datatype error = ValueError | IndexError

subsection \<open>Python's \<open>round(x, ndigits)\<close>\<close>

text \<open>Rounding to the nearest integer, a tie going to the even neighbour.\<close>

definition round_half_even :: "rat \<Rightarrow> int" where
  "round_half_even x =
     (let f = \<lfloor>x\<rfloor>; d = x - of_int f in
      if d < 1 / 2 then f
      else if 1 / 2 < d then f + 1
      else if even f then f else f + 1)"

text \<open>\<open>round(x, ndigits)\<close>: the nearest multiple of \<open>10 ** (-ndigits)\<close>.\<close>

definition py_round :: "rat \<Rightarrow> int \<Rightarrow> rat" where
  "py_round x ndigits =
     (if 0 \<le> ndigits
      then of_int (round_half_even (x * 10 ^ nat ndigits)) / 10 ^ nat ndigits
      else of_int (round_half_even (x / 10 ^ nat (- ndigits))) * 10 ^ nat (- ndigits))"

section \<open>\<open>find_constituents\<close>\<close>

text \<open>
  \<open>start_index = last_index + 1\<close>, where \<open>last_index\<close> is \<open>used_indices[-1]\<close>, or \<open>-1\<close>
  when \<open>used_indices\<close> is empty.
\<close>

definition start_index :: "nat list \<Rightarrow> nat" where
  "start_index used_indices = (if used_indices \<noteq> [] then last used_indices + 1 else 0)"

text \<open>\<open>[c for i, c in enumerate(constituents) if i not in used_indices]\<close>\<close>

definition remaining :: "rat list \<Rightarrow> nat list \<Rightarrow> rat list" where
  "remaining constituents used_indices =
     map snd (filter (\<lambda>(i, c). i \<notin> set used_indices) (List.enumerate 0 constituents))"

text \<open>
  \<open>find_constituents constituents total used_indices precision tol\<close> is the function
  of the source; a top-level call passes \<open>used_indices = []\<close>. \<open>find_constituents_loop\<close> is
  its \<open>for\<close> loop over \<open>enumerate(constituents[start_index:])\<close>, at position \<open>index\<close>
  (already shifted by \<open>start_index\<close>) with the solutions collected so far; the
  parameter \<open>total\<close> of the source is \<open>target\<close> here. The recursive
  call of the source passes neither \<open>precision\<close> nor \<open>tol\<close>, so the callee runs with the
  defaults \<open>3\<close> and \<open>1e-4\<close>.
\<close>

function find_constituents ::
    "rat list \<Rightarrow> rat \<Rightarrow> nat list \<Rightarrow> int \<Rightarrow> rat \<Rightarrow> error + SOLUTION set"
  and find_constituents_loop ::
    "rat list \<Rightarrow> rat \<Rightarrow> nat list \<Rightarrow> int \<Rightarrow> rat \<Rightarrow> rat \<Rightarrow> nat \<Rightarrow> SOLUTION set
       \<Rightarrow> error + SOLUTION set"
where
  "find_constituents constituents target used_indices precision tol =
     (let rounded = py_round target precision;
          unused = remaining constituents used_indices
      in if unused = [] then Inl ValueError
         else find_constituents_loop constituents rounded used_indices precision tol
                (min (min_list unused) 0) (start_index used_indices) {})"
| "find_constituents_loop constituents target used_indices precision tol min_remaining
       index all_solutions =
     (if length constituents \<le> index then Inr all_solutions
      else
        let constituent = py_round (constituents ! index) precision in
        if target + tol + \<bar>min_remaining\<bar> < constituent
        then find_constituents_loop constituents target used_indices precision tol
               min_remaining (index + 1) all_solutions
        else if index \<in> set used_indices
        then find_constituents_loop constituents target used_indices precision tol
               min_remaining (index + 1) all_solutions
        else
          let new_total = target - constituent in
          if - tol \<le> new_total \<and> new_total \<le> tol
          then find_constituents_loop constituents target used_indices precision tol
                 min_remaining (index + 1)
                 (insert (sort (used_indices @ [index])) all_solutions)
          else
            (case find_constituents constituents new_total (used_indices @ [index])
                    3 (1 / 10000) of
               Inl e \<Rightarrow> Inl e
             | Inr solutions \<Rightarrow>
                 find_constituents_loop constituents target used_indices precision tol
                   min_remaining (index + 1) (all_solutions \<union> solutions)))"
  by pat_completeness auto
termination
  by (relation "measure (\<lambda>a. case a of
        Inl (constituents, target, used_indices, precision, tol) \<Rightarrow>
          2 * (length constituents - start_index used_indices) + 1
      | Inr (constituents, target, used_indices, precision, tol, min_remaining, index,
             all_solutions) \<Rightarrow> 2 * (length constituents - index))")
     (auto simp: start_index_def)

declare find_constituents.simps [simp del] find_constituents_loop.simps [simp del]

text \<open>
  The algorithm as the specification words it, with \<open>precision\<close> and \<open>tol\<close> fixed per
  search invocation and applied at every recursion depth: the same search, except that
  the recursive call hands both parameters on.
\<close>

function find_constituents_spec ::
    "rat list \<Rightarrow> rat \<Rightarrow> nat list \<Rightarrow> int \<Rightarrow> rat \<Rightarrow> error + SOLUTION set"
  and find_constituents_spec_loop ::
    "rat list \<Rightarrow> rat \<Rightarrow> nat list \<Rightarrow> int \<Rightarrow> rat \<Rightarrow> rat \<Rightarrow> nat \<Rightarrow> SOLUTION set
       \<Rightarrow> error + SOLUTION set"
where
  "find_constituents_spec constituents target used_indices precision tol =
     (let rounded = py_round target precision;
          unused = remaining constituents used_indices
      in if unused = [] then Inl ValueError
         else find_constituents_spec_loop constituents rounded used_indices precision tol
                (min (min_list unused) 0) (start_index used_indices) {})"
| "find_constituents_spec_loop constituents target used_indices precision tol min_remaining
       index all_solutions =
     (if length constituents \<le> index then Inr all_solutions
      else
        let constituent = py_round (constituents ! index) precision in
        if target + tol + \<bar>min_remaining\<bar> < constituent
        then find_constituents_spec_loop constituents target used_indices precision tol
               min_remaining (index + 1) all_solutions
        else if index \<in> set used_indices
        then find_constituents_spec_loop constituents target used_indices precision tol
               min_remaining (index + 1) all_solutions
        else
          let new_total = target - constituent in
          if - tol \<le> new_total \<and> new_total \<le> tol
          then find_constituents_spec_loop constituents target used_indices precision tol
                 min_remaining (index + 1)
                 (insert (sort (used_indices @ [index])) all_solutions)
          else
            (case find_constituents_spec constituents new_total (used_indices @ [index])
                    precision tol of
               Inl e \<Rightarrow> Inl e
             | Inr solutions \<Rightarrow>
                 find_constituents_spec_loop constituents target used_indices precision tol
                   min_remaining (index + 1) (all_solutions \<union> solutions)))"
  by pat_completeness auto
termination
  by (relation "measure (\<lambda>a. case a of
        Inl (constituents, target, used_indices, precision, tol) \<Rightarrow>
          2 * (length constituents - start_index used_indices) + 1
      | Inr (constituents, target, used_indices, precision, tol, min_remaining, index,
             all_solutions) \<Rightarrow> 2 * (length constituents - index))")
     (auto simp: start_index_def)

declare find_constituents_spec.simps [simp del] find_constituents_spec_loop.simps [simp del]

section \<open>\<open>filter_unique_solutions\<close>\<close>

text \<open>
  \<open>filter_unique_solutions solutions used_indices\<close>: each per-total solution set is given
  as the list of its elements in the order in which the \<open>for\<close> loop iterates over it, and
  \<open>used_indices\<close> is a set of indices (\<open>set()\<close> at the top level).
  \<open>filter_unique_solutions_loop\<close> is the \<open>for\<close> loop over \<open>solutions[0]\<close>: its arguments
  are the solutions still to visit, \<open>solutions[1:]\<close>, \<open>used_indices\<close> and the list
  \<open>all_solutions\<close> built so far; \<open>len(solutions) == 1\<close> is \<open>solutions[1:] = []\<close>.
\<close>

function filter_unique_solutions ::
    "SOLUTION list list \<Rightarrow> nat set \<Rightarrow> error + SOLUTION list list"
  and filter_unique_solutions_loop ::
    "SOLUTION list \<Rightarrow> SOLUTION list list \<Rightarrow> nat set \<Rightarrow> SOLUTION list list
       \<Rightarrow> error + SOLUTION list list"
where
  "filter_unique_solutions [] used_indices = Inl IndexError"
| "filter_unique_solutions (first # rest) used_indices =
     filter_unique_solutions_loop first rest used_indices []"
| "filter_unique_solutions_loop [] rest used_indices all_solutions = Inr all_solutions"
| "filter_unique_solutions_loop (solution # more) rest used_indices all_solutions =
     (if list_ex (\<lambda>i. i \<in> used_indices) solution
      then filter_unique_solutions_loop more rest used_indices all_solutions
      else if rest = []
      then filter_unique_solutions_loop more rest used_indices (all_solutions @ [[solution]])
      else
        (case filter_unique_solutions rest (used_indices \<union> set solution) of
           Inl e \<Rightarrow> Inl e
         | Inr new_solutions \<Rightarrow>
             filter_unique_solutions_loop more rest used_indices
               (all_solutions @ map (\<lambda>sol. solution # sol) new_solutions)))"
  by pat_completeness auto
termination
  by (relation "measures
        [\<lambda>a. case a of
           Inl (solutions, used_indices) \<Rightarrow> 2 * length solutions
         | Inr (todo, rest, used_indices, all_solutions) \<Rightarrow> 2 * length rest + 1,
         \<lambda>a. case a of
           Inl (solutions, used_indices) \<Rightarrow> 0
         | Inr (todo, rest, used_indices, all_solutions) \<Rightarrow> length todo]")
     auto

section \<open>\<open>find_unique_solutions\<close>\<close>

text \<open>
  The loop of \<open>find_unique_solutions\<close> that fills \<open>all_solutions\<close> with one
  \<open>find_constituents\<close> result per total; the first exception ends it.
\<close>

fun find_unique_solutions_loop ::
    "rat list \<Rightarrow> rat list \<Rightarrow> rat \<Rightarrow> int \<Rightarrow> error + SOLUTION set list" where
  "find_unique_solutions_loop constituents [] tol precision = Inr []"
| "find_unique_solutions_loop constituents (target # totals) tol precision =
     (case find_constituents constituents target [] precision tol of
        Inl e \<Rightarrow> Inl e
      | Inr solutions \<Rightarrow>
          (case find_unique_solutions_loop constituents totals tol precision of
             Inl e \<Rightarrow> Inl e
           | Inr all_solutions \<Rightarrow> Inr (solutions # all_solutions)))"

text \<open>
  \<open>find_unique_solutions\<close> without its printing. The order in which Python iterates over
  a set is not fixed by the language; it is the parameter \<open>iteration\<close>, which lists the
  elements of a set.
\<close>

definition find_unique_solutions ::
    "(SOLUTION set \<Rightarrow> SOLUTION list) \<Rightarrow> rat list \<Rightarrow> rat list \<Rightarrow> rat \<Rightarrow> int
       \<Rightarrow> error + SOLUTION list list" where
  "find_unique_solutions iteration constituents totals tol precision =
     (case find_unique_solutions_loop constituents totals tol precision of
        Inl e \<Rightarrow> Inl e
      | Inr all_solutions \<Rightarrow> filter_unique_solutions (map iteration all_solutions) {})"

section \<open>Canonical index-subsets\<close>

text \<open>
  The canonical form of an index-subset of the specification: a strictly increasing
  sequence of indices into the constituent list.
\<close>

definition canonical :: "rat list \<Rightarrow> SOLUTION \<Rightarrow> bool" where
  "canonical constituents sol \<longleftrightarrow>
     sorted_wrt (<) sol \<and> (\<forall>i\<in>set sol. i < length constituents)"

section \<open>Rounded sums\<close>

text \<open>
  The values that \<open>round(x, ndigits)\<close> can return: the multiples of \<open>10 ** (-ndigits)\<close>.
\<close>

definition on_grid :: "int \<Rightarrow> rat \<Rightarrow> bool" where
  "on_grid ndigits x \<longleftrightarrow>
     (\<exists>k::int. x = (if 0 \<le> ndigits then of_int k / 10 ^ nat ndigits
                    else of_int k * 10 ^ nat (- ndigits)))"

text \<open>
  The sum of the constituents at the given indices, each rounded to \<open>precision\<close> decimals
  as the search rounds it before subtracting it from the remaining total.
\<close>

definition rounded_sum :: "rat list \<Rightarrow> int \<Rightarrow> nat list \<Rightarrow> rat" where
  "rounded_sum constituents precision indices =
     sum_list (map (\<lambda>i. py_round (constituents ! i) precision) indices)"

section \<open>A closed form of \<open>filter_unique_solutions\<close>\<close>

text \<open>
  What the two nested loops of \<open>filter_unique_solutions\<close> compute, written with \<open>filter\<close>,
  \<open>map\<close> and \<open>concat\<close>; it is used in the proofs only, and
  \<open>filter_unique_solutions_closed\<close> below shows that it is the result of the function
  on every non-empty input.
\<close>

fun disjoint_choices :: "SOLUTION list list \<Rightarrow> nat set \<Rightarrow> SOLUTION list list" where
  "disjoint_choices [] used_indices = [[]]"
| "disjoint_choices (first # rest) used_indices =
     concat (map (\<lambda>solution. map ((#) solution)
                    (disjoint_choices rest (used_indices \<union> set solution)))
               (filter (\<lambda>solution. \<not> list_ex (\<lambda>i. i \<in> used_indices) solution) first))"

section \<open>Properties of \<open>filter_unique_solutions\<close>\<close>

lemma filter_unique_solutions_closed:
  "solutions \<noteq> [] \<Longrightarrow>
     filter_unique_solutions solutions used_indices = Inr (disjoint_choices solutions used_indices)"
  "filter_unique_solutions_loop todo rest used_indices all_solutions =
     Inr (all_solutions @ concat (map (\<lambda>solution. map ((#) solution)
                    (disjoint_choices rest (used_indices \<union> set solution)))
               (filter (\<lambda>solution. \<not> list_ex (\<lambda>i. i \<in> used_indices) solution) todo)))"
  by (induction solutions used_indices and todo rest used_indices all_solutions
      rule: filter_unique_solutions_filter_unique_solutions_loop.induct) auto

lemma disjoint_choices_shape:
  "c \<in> set (disjoint_choices solutions used_indices) \<Longrightarrow>
     length c = length solutions \<and> (\<forall>i<length solutions. c ! i \<in> set (solutions ! i))"
proof (induction solutions arbitrary: c used_indices)
  case Nil
  then show ?case by simp
next
  case (Cons first rest)
  from Cons.prems obtain solution c' where
    c: "c = solution # c'" and s: "solution \<in> set first"
    and c': "c' \<in> set (disjoint_choices rest (used_indices \<union> set solution))"
    by auto
  from Cons.IH [OF c'] show ?case
    using c s by (auto simp: nth_Cons')
qed

lemma disjoint_choices_disjoint:
  "c \<in> set (disjoint_choices solutions used_indices) \<Longrightarrow>
     (\<forall>x\<in>set c. set x \<inter> used_indices = {}) \<and>
     (\<forall>i j. i < j \<and> j < length c \<longrightarrow> set (c ! i) \<inter> set (c ! j) = {})"
proof (induction solutions arbitrary: c used_indices)
  case Nil
  then show ?case by simp
next
  case (Cons first rest)
  from Cons.prems obtain solution c' where
    c: "c = solution # c'" and s: "set solution \<inter> used_indices = {}"
    and c': "c' \<in> set (disjoint_choices rest (used_indices \<union> set solution))"
    by (auto simp: list_ex_iff)
  from Cons.IH [OF c'] have
    a: "\<forall>x\<in>set c'. set x \<inter> (used_indices \<union> set solution) = {}" and
    b: "\<forall>i j. i < j \<and> j < length c' \<longrightarrow> set (c' ! i) \<inter> set (c' ! j) = {}"
    by blast+
  have 1: "\<forall>x\<in>set c. set x \<inter> used_indices = {}"
    using a s c by auto
  have 2: "set (c ! i) \<inter> set (c ! j) = {}" if "i < j" "j < length c" for i j
  proof (cases i)
    case 0
    with that c obtain j' where j': "j = Suc j'" "j' < length c'"
      by (cases j) auto
    then have "c' ! j' \<in> set c'" by simp
    with a have "set (c' ! j') \<inter> set solution = {}" by blast
    with 0 j' c show ?thesis by auto
  next
    case (Suc i')
    with that c obtain j' where j': "j = Suc j'" "j' < length c'" "i' < j'"
      by (cases j) auto
    with b Suc c show ?thesis by simp
  qed
  from 1 2 show ?case by blast
qed

lemma disjoint_choices_distinct_concat:
  "c \<in> set (disjoint_choices solutions used_indices) \<Longrightarrow>
   \<forall>s\<in>set solutions. \<forall>t\<in>set s. distinct t \<Longrightarrow>
     distinct (concat c) \<and> set (concat c) \<inter> used_indices = {}"
proof (induction solutions arbitrary: c used_indices)
  case Nil
  then show ?case by simp
next
  case (Cons first rest)
  from Cons.prems(1) obtain solution c' where
    c: "c = solution # c'" and s: "set solution \<inter> used_indices = {}"
    and m: "solution \<in> set first"
    and c': "c' \<in> set (disjoint_choices rest (used_indices \<union> set solution))"
    by (auto simp: list_ex_iff)
  from m Cons.prems(2) have d: "distinct solution" by simp
  from Cons.IH [OF c'] Cons.prems(2) have
    "distinct (concat c') \<and> set (concat c') \<inter> (used_indices \<union> set solution) = {}"
    by simp
  with c s d show ?case by auto
qed

text \<open>
  C6. Whenever \<open>filter_unique_solutions\<close> returns, the per-total subsets of every
  combination it returns are pairwise index-disjoint; and when no input subset repeats
  an index, the indices of the whole combination, written one after the other, contain no
  duplicate.
\<close>

theorem filter_unique_solutions_disjoint:
  assumes "filter_unique_solutions solutions used_indices = Inr combinations"
    and "combination \<in> set combinations"
  shows "(\<forall>i j. i < j \<and> j < length combination \<longrightarrow>
            set (combination ! i) \<inter> set (combination ! j) = {}) \<and>
         ((\<forall>s\<in>set solutions. \<forall>t\<in>set s. distinct t) \<longrightarrow> distinct (concat combination))"
proof -
  from assms(1) have "solutions \<noteq> []" by auto
  with assms have "combination \<in> set (disjoint_choices solutions used_indices)"
    by (simp add: filter_unique_solutions_closed(1))
  then show ?thesis
    using disjoint_choices_disjoint disjoint_choices_distinct_concat by blast
qed

theorem filter_unique_solutions_disjoint_witness:
  "filter_unique_solutions [[[0, 1], [2]], [[2], [3]]] {} =
     Inr [[[0, 1], [2]], [[0, 1], [3]], [[2], [3]]] \<and>
   [[0, 1], [3]] \<in> set [[[0, 1], [2]], [[0, 1], [3]], [[2], [3::nat]]] \<and>
   set ([[0, 1], [3::nat]] ! 0) \<inter> set ([[0, 1], [3]] ! 1) = {} \<and>
   distinct (concat [[0, 1], [3::nat]])"
proof -
  have h1: "filter_unique_solutions [[[0, 1], [2]], [[2], [3]]] {} =
      Inr [[[0, 1], [2]], [[0, 1], [3]], [[2], [3]]]"
    by simp
  have h2: "[[0, 1], [3]] \<in> set [[[0, 1], [2]], [[0, 1], [3]], [[2], [3::nat]]]"
    by simp
  have h3: "\<forall>s\<in>set [[[0, 1], [2]], [[2], [3::nat]]]. \<forall>t\<in>set s. distinct t"
    by simp
  have h4: "(0::nat) < 1 \<and> 1 < length [[0, 1], [3::nat]]"
    by simp
  from filter_unique_solutions_disjoint [OF h1 h2] h1 h2 h3 h4 show ?thesis
    by blast
qed

text \<open>
  C8. On a non-empty list of per-total solution sets \<open>filter_unique_solutions\<close> returns,
  and every combination it returns has one index-subset per total, the \<open>i\<close>-th of them
  taken from the \<open>i\<close>-th solution set of the input.
\<close>

theorem filter_unique_solutions_order:
  assumes "solutions \<noteq> []"
  shows "\<exists>combinations. filter_unique_solutions solutions used_indices = Inr combinations \<and>
           (\<forall>combination\<in>set combinations.
              length combination = length solutions \<and>
              (\<forall>i<length solutions. combination ! i \<in> set (solutions ! i)))"
  using assms disjoint_choices_shape
  by (simp add: filter_unique_solutions_closed(1))

theorem filter_unique_solutions_order_witness:
  "[[[0, 1], [2]], [[2], [3::nat]]] \<noteq> [] \<and>
   filter_unique_solutions [[[0, 1], [2]], [[2], [3]]] {} =
     Inr [[[0, 1], [2]], [[0, 1], [3]], [[2], [3]]] \<and>
   length [[0, 1], [3::nat]] = length [[[0, 1], [2]], [[2], [3::nat]]] \<and>
   [[0, 1], [3::nat]] ! 0 \<in> set ([[[0, 1], [2]], [[2], [3]]] ! 0) \<and>
   [[0, 1], [3::nat]] ! 1 \<in> set ([[[0, 1], [2]], [[2], [3]]] ! 1)"
proof -
  have h: "[[[0, 1], [2]], [[2], [3::nat]]] \<noteq> []" by simp
  have e: "filter_unique_solutions [[[0, 1], [2]], [[2], [3]]] {} =
      Inr [[[0, 1], [2]], [[0, 1], [3]], [[2], [3]]]"
    by simp
  from filter_unique_solutions_order [OF h, of "{}"] e
  have "\<forall>combination\<in>set [[[0, 1], [2]], [[0, 1], [3]], [[2], [3::nat]]].
          length combination = length [[[0, 1], [2]], [[2], [3::nat]]] \<and>
          (\<forall>i<length [[[0, 1], [2]], [[2], [3::nat]]].
             combination ! i \<in> set ([[[0, 1], [2]], [[2], [3]]] ! i))"
    by simp
  then have "length [[0, 1], [3::nat]] = length [[[0, 1], [2]], [[2], [3::nat]]] \<and>
      (\<forall>i<length [[[0, 1], [2]], [[2], [3::nat]]].
         [[0, 1], [3::nat]] ! i \<in> set ([[[0, 1], [2]], [[2], [3]]] ! i))"
    by simp
  with h e show ?thesis
    by simp
qed

text \<open>
  C10. With no per-total solution set at all, \<open>filter_unique_solutions\<close> returns no list
  of combinations: reading \<open>solutions[0]\<close> raises \<open>IndexError\<close>.
\<close>

theorem filter_unique_solutions_no_totals:
  "filter_unique_solutions [] used_indices = Inl IndexError"
  by simp

section \<open>Evaluating \<open>find_constituents\<close>\<close>

lemma floor_numeral_divide:
  "\<lfloor>numeral a / numeral b :: rat\<rfloor> = numeral a div numeral b"
  "\<lfloor>- numeral a / numeral b :: rat\<rfloor> = - numeral a div numeral b"
  "\<lfloor>- (numeral a / numeral b) :: rat\<rfloor> = - numeral a div numeral b"
  using floor_divide_of_int_eq [of "numeral a" "numeral b", where ?'a = rat]
    floor_divide_of_int_eq [of "- numeral a" "numeral b", where ?'a = rat]
  by simp_all

lemmas find_constituents_eval =
  find_constituents.simps find_constituents_loop.simps py_round_def round_half_even_def
  remaining_def start_index_def Let_def enumerate_eq_zip floor_numeral_divide

lemmas find_constituents_spec_eval =
  find_constituents_spec.simps find_constituents_spec_loop.simps py_round_def
  round_half_even_def remaining_def start_index_def Let_def enumerate_eq_zip
  floor_numeral_divide

section \<open>Properties of \<open>find_constituents\<close>\<close>

text \<open>
  C1. The specification states that \<open>find_constituents\<close> returns a set on every non-empty constituent
  list. It does not: on the constituents \<open>[1]\<close> and the total \<open>5\<close> the only branch takes
  index \<open>0\<close>, the recursive call finds no constituent left, and \<open>min()\<close> of the empty list
  raises \<open>ValueError\<close>, which ends the whole search.
\<close>

theorem find_constituents_exhausted_branch:
  "find_constituents [1] 5 [] 3 (1 / 10000) = Inl ValueError"
  by (simp add: find_constituents_eval)

text \<open>
  C2. The specification states that the pruning bound never skips a constituent of a valid
  completion. On the constituents \<open>[10, -3, -3]\<close> and the total \<open>4\<close> the three values sum
  to \<open>4\<close>, but \<open>10\<close> exceeds \<open>4 + tol + |-3|\<close> and is skipped: the search returns the
  empty set.
\<close>

theorem find_constituents_negative_pruning:
  "find_constituents [10, - 3, - 3] 4 [] 3 (1 / 10000) = Inr {} \<and>
   sum_list (map ((!) [10, - 3, - 3 :: rat]) [0, 1, 2]) = 4"
  by (simp add: find_constituents_eval)

text \<open>
  C3. The specification states that the \<open>precision\<close> and \<open>tol\<close> of the top-level call are used at every
  recursion depth. With \<open>tol = 0.5\<close> on the constituents \<open>[1, 2, 3.3]\<close> and the total \<open>6\<close>,
  the search that hands \<open>tol\<close> on finds the subset \<open>(0, 1, 2)\<close>, whose sum \<open>6.3\<close> is within
  \<open>0.5\<close> of \<open>6\<close>; \<open>find_constituents\<close> compares with \<open>1e-4\<close> below the top level and
  returns the empty set.
\<close>

theorem find_constituents_parameters_dropped:
  "find_constituents [1, 2, 33 / 10] 6 [] 3 (1 / 2) = Inr {} \<and>
   find_constituents_spec [1, 2, 33 / 10] 6 [] 3 (1 / 2) = Inr {[0, 1, 2]}"
  by (simp add: find_constituents_eval find_constituents_spec_eval)

text \<open>
  C4. The specification states that an empty constituent list gives an empty solution set. It gives
  no set: whatever the total, the precision and the tolerance, \<open>min()\<close> of the empty list
  raises \<open>ValueError\<close>.
\<close>

theorem find_constituents_no_constituents:
  "find_constituents [] target [] precision tol = Inl ValueError"
  by (simp add: find_constituents.simps remaining_def)

text \<open>
  C5. The specification states that every returned subset sums to the target within \<open>tol\<close>. With
  \<open>precision = 5\<close> and \<open>tol = 1e-5\<close> on the constituents \<open>[1, 1.00005]\<close> and the total \<open>2\<close>,
  the subset \<open>(0, 1)\<close> is returned, although its sum \<open>2.00005\<close> differs from \<open>2\<close> by more
  than \<open>tol\<close>, both as the values are and rounded to five decimals: the recursive call
  rounds \<open>1.00005\<close> to three decimals and compares with \<open>1e-4\<close>.
\<close>

theorem find_constituents_unsound_tolerance:
  "find_constituents [1, 100005 / 100000] 2 [] 5 (1 / 100000) = Inr {[0, 1]} \<and>
   \<not> \<bar>2 - sum_list (map ((!) [1, 100005 / 100000 :: rat]) [0, 1])\<bar> \<le> 1 / 100000 \<and>
   \<not> \<bar>py_round 2 5 - sum_list (map (\<lambda>i. py_round ([1, 100005 / 100000] ! i) 5) [0, 1])\<bar>
        \<le> 1 / 100000"
  by (simp add: find_constituents_eval)

lemma canonical_sort:
  "distinct xs \<Longrightarrow> \<forall>i\<in>set xs. i < length constituents \<Longrightarrow> canonical constituents (sort xs)"
  by (simp add: canonical_def strict_sorted_iff del: sort_key_simps)

lemma find_constituents_canonical_aux:
  "distinct used_indices \<Longrightarrow> \<forall>i\<in>set used_indices. i < length constituents \<Longrightarrow>
   find_constituents constituents target used_indices precision tol = Inr S \<Longrightarrow>
     \<forall>sol\<in>S. canonical constituents sol"
  "distinct used_indices \<Longrightarrow> \<forall>i\<in>set used_indices. i < length constituents \<Longrightarrow>
   \<forall>sol\<in>all_solutions. canonical constituents sol \<Longrightarrow>
   find_constituents_loop constituents target used_indices precision tol min_remaining index
     all_solutions = Inr S \<Longrightarrow>
     \<forall>sol\<in>S. canonical constituents sol"
proof (induction constituents target used_indices precision tol
         and constituents target used_indices precision tol min_remaining index all_solutions
       arbitrary: S and S
       rule: find_constituents_find_constituents_loop.induct)
  case (1 constituents target used_indices precision tol)
  from "1.prems"(3) have ne: "remaining constituents used_indices \<noteq> []"
    and run: "find_constituents_loop constituents (py_round target precision) used_indices
        precision tol (min (min_list (remaining constituents used_indices)) 0)
        (start_index used_indices) {} = Inr S"
    by (auto simp: find_constituents.simps Let_def split: if_splits)
  from "1.IH" [OF refl refl ne "1.prems"(1,2) _ run] show ?case
    by simp
next
  case (2 constituents target used_indices precision tol min_remaining index all_solutions)
  note step = find_constituents_loop.simps [of constituents target used_indices precision
      tol min_remaining index all_solutions]
  show ?case
  proof (cases "length constituents \<le> index")
    case True
    with "2.prems"(3,4) show ?thesis
      by (simp add: step)
  next
    case False
    let ?c = "py_round (constituents ! index) precision"
    let ?new_total = "target - ?c"
    show ?thesis
    proof (cases "target + tol + \<bar>min_remaining\<bar> < ?c")
      case True
      with False "2.prems"(4) have
        "find_constituents_loop constituents target used_indices precision tol min_remaining
           (index + 1) all_solutions = Inr S"
        by (simp add: step)
      from "2.IH"(1) [OF False refl True "2.prems"(1,2,3) this] show ?thesis .
    next
      case pruned: False
      show ?thesis
      proof (cases "index \<in> set used_indices")
        case True
        with False pruned "2.prems"(4) have
          "find_constituents_loop constituents target used_indices precision tol
             min_remaining (index + 1) all_solutions = Inr S"
          by (simp add: step)
        from "2.IH"(2) [OF False refl pruned True "2.prems"(1,2,3) this] show ?thesis .
      next
        case fresh: False
        from fresh "2.prems"(1) have d: "distinct (used_indices @ [index])"
          by simp
        from False "2.prems"(2) have r: "\<forall>i\<in>set (used_indices @ [index]). i < length constituents"
          by auto
        show ?thesis
        proof (cases "- tol \<le> ?new_total \<and> ?new_total \<le> tol")
          case True
          with False pruned fresh "2.prems"(4) have run:
            "find_constituents_loop constituents target used_indices precision tol
               min_remaining (index + 1)
               (insert (sort (used_indices @ [index])) all_solutions) = Inr S"
            by (simp add: step Let_def del: sort_key_simps)
          from canonical_sort [OF d r] "2.prems"(3) have
            "\<forall>sol\<in>insert (sort (used_indices @ [index])) all_solutions.
               canonical constituents sol"
            by blast
          from "2.IH"(3) [OF False refl pruned fresh refl True "2.prems"(1,2) this run]
          show ?thesis .
        next
          case miss: False
          with False pruned fresh "2.prems"(4) obtain solutions where
            sub: "find_constituents constituents ?new_total (used_indices @ [index]) 3
                    (1 / 10000) = Inr solutions"
            and run: "find_constituents_loop constituents target used_indices precision tol
               min_remaining (index + 1) (all_solutions \<union> solutions) = Inr S"
            by (auto simp: step Let_def split: sum.splits)
          from "2.IH"(4) [OF False refl pruned fresh refl miss d r sub] "2.prems"(3)
          have "\<forall>sol\<in>all_solutions \<union> solutions. canonical constituents sol"
            by blast
          from "2.IH"(5) [OF False refl pruned fresh refl miss sub "2.prems"(1,2) this run]
          show ?thesis .
        qed
      qed
    qed
  qed
qed

text \<open>
  C9. Every index-subset that a top-level call of \<open>find_constituents\<close> returns is a
  strictly increasing sequence of distinct indices into the constituent list, and no
  other returned subset has the same members: the result holds each subset once, in its
  canonical form.
\<close>

theorem find_constituents_canonical:
  assumes "find_constituents constituents target [] precision tol = Inr solutions"
    and "a \<in> solutions"
  shows "sorted_wrt (<) a \<and> distinct a \<and> (\<forall>i\<in>set a. i < length constituents) \<and>
         (\<forall>b\<in>solutions. set b = set a \<longrightarrow> b = a)"
proof -
  from find_constituents_canonical_aux(1) [OF _ _ assms(1)]
  have all: "\<forall>sol\<in>solutions. canonical constituents sol"
    by simp
  with assms(2) have a: "sorted_wrt (<) a" "\<forall>i\<in>set a. i < length constituents"
    by (auto simp: canonical_def)
  from a(1) have da: "distinct a"
    by (simp add: strict_sorted_iff)
  have "b = a" if "b \<in> solutions" "set b = set a" for b
  proof -
    from all that(1) have "sorted_wrt (<) b" by (simp add: canonical_def)
    with a(1) that(2) show ?thesis
      by (simp add: strict_sorted_equal)
  qed
  with a da show ?thesis by blast
qed

theorem find_constituents_canonical_witness:
  "find_constituents [1, 2, 3] 3 [] 3 (1 / 10000) = Inr {[0, 1], [2]} \<and>
   [0, 1] \<in> {[0, 1], [2 :: nat]} \<and>
   sorted_wrt (<) [0, 1 :: nat] \<and> distinct [0, 1 :: nat]"
proof -
  have h1: "find_constituents [1, 2, 3] 3 [] 3 (1 / 10000) = Inr {[0, 1], [2]}"
    by (auto simp: find_constituents_eval eval_nat_numeral)
  have h2: "[0, 1] \<in> {[0, 1], [2 :: nat]}"
    by simp
  from find_constituents_canonical [OF h1 h2] h1 h2 show ?thesis
    by blast
qed

section \<open>Soundness when the parameters are used at every depth\<close>

text \<open>
  The search that hands \<open>precision\<close> and \<open>tol\<close> on is sound for every choice of the two:
  the rounded constituents of a returned subset sum to the rounded total within \<open>tol\<close>.
  \<open>find_constituents\<close> agrees with it when called with the defaults, the values its
  recursive calls use, and so is sound there.
\<close>

lemma round_half_even_of_int: "round_half_even (of_int k) = k"
  by (simp add: round_half_even_def)

lemma on_grid_py_round: "on_grid ndigits (py_round x ndigits)"
  unfolding on_grid_def py_round_def by auto

lemma on_grid_diff: "on_grid ndigits x \<Longrightarrow> on_grid ndigits y \<Longrightarrow> on_grid ndigits (x - y)"
proof -
  assume "on_grid ndigits x" "on_grid ndigits y"
  then obtain k l :: int where
    x: "x = (if 0 \<le> ndigits then of_int k / 10 ^ nat ndigits
             else of_int k * 10 ^ nat (- ndigits))" and
    y: "y = (if 0 \<le> ndigits then of_int l / 10 ^ nat ndigits
             else of_int l * 10 ^ nat (- ndigits))"
    unfolding on_grid_def by blast
  have "x - y = (if 0 \<le> ndigits then of_int (k - l) / 10 ^ nat ndigits
             else of_int (k - l) * 10 ^ nat (- ndigits))"
    unfolding x y by (simp add: diff_divide_distrib left_diff_distrib)
  then show ?thesis
    unfolding on_grid_def by blast
qed

lemma py_round_on_grid: "on_grid ndigits x \<Longrightarrow> py_round x ndigits = x"
  unfolding on_grid_def py_round_def
  by (auto simp: round_half_even_of_int)

lemma sum_list_insort:
  "sum_list (map f (insort x xs)) = (f x :: rat) + sum_list (map f xs)"
  by (induction xs) simp_all

lemma sum_list_sort: "sum_list (map f (sort xs)) = (sum_list (map f xs) :: rat)"
  by (induction xs) (simp_all add: sum_list_insort)

lemma rounded_sum_sort_snoc:
  "rounded_sum constituents precision (sort (used_indices @ [index])) =
     rounded_sum constituents precision used_indices +
     py_round (constituents ! index) precision"
  unfolding rounded_sum_def by (simp add: sum_list_sort del: sort_key_simps)

lemma rounded_sum_snoc:
  "rounded_sum constituents precision (used_indices @ [index]) =
     rounded_sum constituents precision used_indices +
     py_round (constituents ! index) precision"
  unfolding rounded_sum_def by simp

lemma find_constituents_spec_sound_aux:
  "find_constituents_spec constituents target used_indices precision tol = Inr S \<Longrightarrow>
     \<forall>sol\<in>S. \<bar>py_round target precision + rounded_sum constituents precision used_indices
                - rounded_sum constituents precision sol\<bar> \<le> tol"
  "on_grid precision target \<Longrightarrow>
   \<forall>sol\<in>all_solutions. \<bar>target + rounded_sum constituents precision used_indices
                - rounded_sum constituents precision sol\<bar> \<le> tol \<Longrightarrow>
   find_constituents_spec_loop constituents target used_indices precision tol min_remaining
     index all_solutions = Inr S \<Longrightarrow>
     \<forall>sol\<in>S. \<bar>target + rounded_sum constituents precision used_indices
                - rounded_sum constituents precision sol\<bar> \<le> tol"
proof (induction constituents target used_indices precision tol
         and constituents target used_indices precision tol min_remaining index all_solutions
       arbitrary: S and S
       rule: find_constituents_spec_find_constituents_spec_loop.induct)
  case (1 constituents target used_indices precision tol)
  from "1.prems" have ne: "remaining constituents used_indices \<noteq> []"
    and run: "find_constituents_spec_loop constituents (py_round target precision)
        used_indices precision tol (min (min_list (remaining constituents used_indices)) 0)
        (start_index used_indices) {} = Inr S"
    by (auto simp: find_constituents_spec.simps Let_def split: if_splits)
  from "1.IH" [OF refl refl ne on_grid_py_round _ run] show ?case
    by simp
next
  case (2 constituents target used_indices precision tol min_remaining index all_solutions)
  note step = find_constituents_spec_loop.simps [of constituents target used_indices
      precision tol min_remaining index all_solutions]
  show ?case
  proof (cases "length constituents \<le> index")
    case True
    with "2.prems"(2,3) show ?thesis
      by (simp add: step)
  next
    case False
    let ?c = "py_round (constituents ! index) precision"
    let ?new_total = "target - ?c"
    show ?thesis
    proof (cases "target + tol + \<bar>min_remaining\<bar> < ?c")
      case True
      with False "2.prems"(3) have
        "find_constituents_spec_loop constituents target used_indices precision tol
           min_remaining (index + 1) all_solutions = Inr S"
        by (simp add: step)
      from "2.IH"(1) [OF False refl True "2.prems"(1,2) this] show ?thesis .
    next
      case pruned: False
      show ?thesis
      proof (cases "index \<in> set used_indices")
        case True
        with False pruned "2.prems"(3) have
          "find_constituents_spec_loop constituents target used_indices precision tol
             min_remaining (index + 1) all_solutions = Inr S"
          by (simp add: step)
        from "2.IH"(2) [OF False refl pruned True "2.prems"(1,2) this] show ?thesis .
      next
        case fresh: False
        show ?thesis
        proof (cases "- tol \<le> ?new_total \<and> ?new_total \<le> tol")
          case True
          with False pruned fresh "2.prems"(3) have run:
            "find_constituents_spec_loop constituents target used_indices precision tol
               min_remaining (index + 1)
               (insert (sort (used_indices @ [index])) all_solutions) = Inr S"
            by (simp add: step Let_def del: sort_key_simps)
          from True have
            "\<bar>target + rounded_sum constituents precision used_indices
               - rounded_sum constituents precision (sort (used_indices @ [index]))\<bar> \<le> tol"
            unfolding rounded_sum_sort_snoc by (simp add: abs_le_iff)
          with "2.prems"(2) have
            "\<forall>sol\<in>insert (sort (used_indices @ [index])) all_solutions.
               \<bar>target + rounded_sum constituents precision used_indices
                 - rounded_sum constituents precision sol\<bar> \<le> tol"
            by blast
          from "2.IH"(3) [OF False refl pruned fresh refl True "2.prems"(1) this run]
          show ?thesis .
        next
          case miss: False
          with False pruned fresh "2.prems"(3) obtain solutions where
            sub: "find_constituents_spec constituents ?new_total (used_indices @ [index])
                    precision tol = Inr solutions"
            and run: "find_constituents_spec_loop constituents target used_indices precision
               tol min_remaining (index + 1) (all_solutions \<union> solutions) = Inr S"
            by (auto simp: step Let_def split: sum.splits)
          from "2.prems"(1) have "py_round ?new_total precision = ?new_total"
            by (intro py_round_on_grid on_grid_diff on_grid_py_round)
          with "2.IH"(4) [OF False refl pruned fresh refl miss sub]
          have "\<forall>sol\<in>solutions.
               \<bar>target + rounded_sum constituents precision used_indices
                 - rounded_sum constituents precision sol\<bar> \<le> tol"
            by (simp add: rounded_sum_snoc)
          with "2.prems"(2) have
            "\<forall>sol\<in>all_solutions \<union> solutions.
               \<bar>target + rounded_sum constituents precision used_indices
                 - rounded_sum constituents precision sol\<bar> \<le> tol"
            by blast
          from "2.IH"(5) [OF False refl pruned fresh refl miss sub "2.prems"(1) this run]
          show ?thesis .
        qed
      qed
    qed
  qed
qed

lemma find_constituents_default_spec:
  "precision = 3 \<Longrightarrow> tol = 1 / 10000 \<Longrightarrow>
   find_constituents constituents target used_indices precision tol =
   find_constituents_spec constituents target used_indices precision tol"
  "precision = 3 \<Longrightarrow> tol = 1 / 10000 \<Longrightarrow>
   find_constituents_loop constituents target used_indices precision tol min_remaining
     index all_solutions =
   find_constituents_spec_loop constituents target used_indices precision tol min_remaining
     index all_solutions"
proof (induction constituents target used_indices precision tol
         and constituents target used_indices precision tol min_remaining index all_solutions
       rule: find_constituents_find_constituents_loop.induct)
  case (1 constituents target used_indices precision tol)
  from "1.prems" have defaults: "precision = 3" "tol = 1 / 10000"
    by simp_all
  show ?case
  proof (cases "remaining constituents used_indices = []")
    case True
    then show ?thesis
      by (simp add: find_constituents.simps find_constituents_spec.simps)
  next
    case False
    from "1.IH" [OF refl refl False "1.prems"] False show ?thesis
      by (simp add: find_constituents.simps find_constituents_spec.simps Let_def)
  qed
next
  case (2 constituents target used_indices precision tol min_remaining index all_solutions)
  from "2.prems" have defaults: "precision = 3" "tol = 1 / 10000"
    by simp_all
  note step = find_constituents_loop.simps [of constituents target used_indices precision
      tol min_remaining index all_solutions]
  note step' = find_constituents_spec_loop.simps [of constituents target used_indices
      precision tol min_remaining index all_solutions]
  show ?case
  proof (cases "length constituents \<le> index")
    case True
    then show ?thesis
      by (simp add: step step')
  next
    case False
    let ?c = "py_round (constituents ! index) precision"
    let ?new_total = "target - ?c"
    show ?thesis
    proof (cases "target + tol + \<bar>min_remaining\<bar> < ?c")
      case True
      from "2.IH"(1) [OF False refl True "2.prems"] False True show ?thesis
        by (simp add: step step')
    next
      case pruned: False
      show ?thesis
      proof (cases "index \<in> set used_indices")
        case True
        from "2.IH"(2) [OF False refl pruned True "2.prems"] False pruned True
        show ?thesis
          by (simp add: step step')
      next
        case fresh: False
        show ?thesis
        proof (cases "- tol \<le> ?new_total \<and> ?new_total \<le> tol")
          case True
          from "2.IH"(3) [OF False refl pruned fresh refl True "2.prems"]
            False pruned fresh True
          show ?thesis
            by (simp add: step step' Let_def del: sort_key_simps)
        next
          case miss: False
          have sub: "find_constituents constituents ?new_total (used_indices @ [index]) 3
                (1 / 10000) =
              find_constituents_spec constituents ?new_total (used_indices @ [index])
                precision tol"
            unfolding defaults
            by (rule "2.IH"(4) [OF False refl pruned fresh refl miss refl refl,
                  unfolded defaults])
          have unfold: "find_constituents_loop constituents target used_indices precision
                tol min_remaining index all_solutions =
              (case find_constituents constituents ?new_total (used_indices @ [index]) 3
                      (1 / 10000) of
                 Inl e \<Rightarrow> Inl e
               | Inr solutions \<Rightarrow>
                   find_constituents_loop constituents target used_indices precision tol
                     min_remaining (index + 1) (all_solutions \<union> solutions))"
            unfolding step Let_def if_not_P [OF False] if_not_P [OF pruned]
              if_not_P [OF fresh] if_not_P [OF miss] ..
          have unfold': "find_constituents_spec_loop constituents target used_indices
                precision tol min_remaining index all_solutions =
              (case find_constituents_spec constituents ?new_total (used_indices @ [index])
                      precision tol of
                 Inl e \<Rightarrow> Inl e
               | Inr solutions \<Rightarrow>
                   find_constituents_spec_loop constituents target used_indices precision
                     tol min_remaining (index + 1) (all_solutions \<union> solutions))"
            unfolding step' Let_def if_not_P [OF False] if_not_P [OF pruned]
              if_not_P [OF fresh] if_not_P [OF miss] ..
          show ?thesis
          proof (cases "find_constituents constituents ?new_total (used_indices @ [index]) 3
                (1 / 10000)")
            case (Inl e)
            with sub have "find_constituents_spec constituents ?new_total
                (used_indices @ [index]) precision tol = Inl e"
              by simp
            with Inl show ?thesis
              unfolding unfold unfold' by simp
          next
            case (Inr solutions)
            with sub have "find_constituents_spec constituents ?new_total
                (used_indices @ [index]) precision tol = Inr solutions"
              by simp
            with Inr "2.IH"(5) [OF False refl pruned fresh refl miss Inr "2.prems"]
            show ?thesis
              unfolding unfold unfold' by simp
          qed
        qed
      qed
    qed
  qed
qed

lemma find_constituents_default_sound:
  assumes "find_constituents constituents target [] 3 (1 / 10000) = Inr S" and "sol \<in> S"
  shows "\<bar>py_round target 3 - rounded_sum constituents 3 sol\<bar> \<le> 1 / 10000"
proof -
  from assms(1) have "find_constituents_spec constituents target [] 3 (1 / 10000) = Inr S"
    by (simp add: find_constituents_default_spec(1))
  from find_constituents_spec_sound_aux(1) [OF this] assms(2) show ?thesis
    by (simp add: rounded_sum_def)
qed

section \<open>The end-to-end scenario\<close>

lemma solutions_12: "find_constituents [1, 2, 3, 4, 5, 6] 12 [] 3 (1 / 10000) =
   Inr {[0, 4, 5], [1, 3, 5], [0, 1, 2, 5], [2, 3, 4], [0, 1, 3, 4]}"
  by (auto simp: find_constituents_eval eval_nat_numeral)

lemma solutions_9: "find_constituents [1, 2, 3, 4, 5, 6] 9 [] 3 (1 / 10000) =
   Inr {[2, 5], [3, 4], [0, 1, 5], [0, 2, 4], [1, 2, 3]}"
  by (auto simp: find_constituents_eval eval_nat_numeral)

lemma disjoint_choices_two:
  "disjoint_choices [xs, ys] {} =
     concat (map (\<lambda>a. map (\<lambda>b. [a, b]) (filter (\<lambda>b. set b \<inter> set a = {}) ys)) xs)"
proof -
  have inner: "concat (map (\<lambda>b. [[b]]) zs) = map (\<lambda>b. [b]) zs" for zs :: "SOLUTION list"
    by (induction zs) simp_all
  have p: "(\<forall>i\<in>set b. i \<notin> set a) \<longleftrightarrow> set b \<inter> set a = {}" for a b :: SOLUTION
    by auto
  show ?thesis
    by (simp add: inner p list_ex_iff comp_def)
qed

lemma find_unique_solutions_two:
  assumes "find_constituents constituents t1 [] precision tol = Inr S1"
    and "find_constituents constituents t2 [] precision tol = Inr S2"
  shows "find_unique_solutions iteration constituents [t1, t2] tol precision =
     Inr (disjoint_choices [iteration S1, iteration S2] {})"
proof -
  have "find_unique_solutions_loop constituents [t1, t2] tol precision = Inr [S1, S2]"
    using assms by simp
  then have "find_unique_solutions iteration constituents [t1, t2] tol precision =
      filter_unique_solutions [iteration S1, iteration S2] {}"
    by (simp add: find_unique_solutions_def)
  also have "\<dots> = Inr (disjoint_choices [iteration S1, iteration S2] {})"
    by (rule filter_unique_solutions_closed(1)) simp
  finally show ?thesis .
qed

lemma set_disjoint_choices_two:
  "set (disjoint_choices [xs, ys] {}) =
     (\<Union>a\<in>set xs. (\<lambda>b. [a, b]) ` {b \<in> set ys. set b \<inter> set a = {}})"
  unfolding disjoint_choices_two by auto

lemma length_disjoint_choices_two:
  assumes "distinct xs" "distinct ys"
  shows "length (disjoint_choices [xs, ys] {}) =
     (\<Sum>a\<in>set xs. card {b \<in> set ys. set b \<inter> set a = {}})"
proof -
  have "length (disjoint_choices [xs, ys] {}) =
      sum_list (map (\<lambda>a. length (filter (\<lambda>b. set b \<inter> set a = {}) ys)) xs)"
    unfolding disjoint_choices_two by (simp add: length_concat comp_def)
  also have "\<dots> = sum_list (map (\<lambda>a. card {b \<in> set ys. set b \<inter> set a = {}}) xs)"
    using assms(2) by (simp add: distinct_length_filter Int_def conj_commute)
  also have "\<dots> = (\<Sum>a\<in>set xs. card {b \<in> set ys. set b \<inter> set a = {}})"
    using assms(1) by (simp add: sum_list_distinct_conv_sum_set)
  finally show ?thesis .
qed

lemma Collect_insert_if:
  "{x \<in> insert a A. P x} = (if P a then insert a {x \<in> A. P x} else {x \<in> A. P x})"
  by auto

text \<open>
  C7. For the constituents \<open>[1, 2, 3, 4, 5, 6]\<close> and the totals \<open>[12, 9]\<close>, in whatever
  order the solution sets are iterated over, \<open>find_unique_solutions\<close> returns exactly five
  combinations, each of them a subset summing to \<open>12\<close> followed by a disjoint subset
  summing to \<open>9\<close>.
\<close>

theorem end_to_end_scenario:
  assumes "\<forall>S. finite S \<longrightarrow> set (iteration S) = S \<and> distinct (iteration S)"
  shows "\<exists>combinations.
           find_unique_solutions iteration [1, 2, 3, 4, 5, 6] [12, 9] (1 / 10000) 3 =
             Inr combinations \<and>
           length combinations = 5 \<and>
           set combinations =
             {[[0, 4, 5], [1, 2, 3]], [[1, 3, 5], [0, 2, 4]], [[0, 1, 2, 5], [3, 4]],
              [[2, 3, 4], [0, 1, 5]], [[0, 1, 3, 4], [2, 5]]} \<and>
           (\<forall>combination\<in>set combinations. \<exists>a b.
              combination = [a, b] \<and>
              sum_list (map ((!) [1, 2, 3, 4, 5, 6 :: rat]) a) = 12 \<and>
              sum_list (map ((!) [1, 2, 3, 4, 5, 6 :: rat]) b) = 9 \<and>
              set a \<inter> set b = {})"
proof -
  let ?S12 = "{[0, 4, 5], [1, 3, 5], [0, 1, 2, 5], [2, 3, 4], [0, 1, 3, 4 :: nat]}"
  let ?S9 = "{[2, 5], [3, 4], [0, 1, 5], [0, 2, 4], [1, 2, 3 :: nat]}"
  let ?xs = "iteration ?S12" and ?ys = "iteration ?S9"
  from assms have xs: "set ?xs = ?S12" "distinct ?xs" and ys: "set ?ys = ?S9" "distinct ?ys"
    by simp_all
  have run: "find_unique_solutions iteration [1, 2, 3, 4, 5, 6] [12, 9] (1 / 10000) 3 =
      Inr (disjoint_choices [?xs, ?ys] {})"
    by (rule find_unique_solutions_two [OF solutions_12 solutions_9])
  have len: "length (disjoint_choices [?xs, ?ys] {}) = 5"
    unfolding length_disjoint_choices_two [OF xs(2) ys(2)] xs(1) ys(1)
    by (simp only: Collect_insert_if) simp
  have els: "set (disjoint_choices [?xs, ?ys] {}) =
      {[[0, 4, 5], [1, 2, 3]], [[1, 3, 5], [0, 2, 4]], [[0, 1, 2, 5], [3, 4]],
       [[2, 3, 4], [0, 1, 5]], [[0, 1, 3, 4], [2, 5]]}"
    unfolding set_disjoint_choices_two xs(1) ys(1)
    by (simp only: Collect_insert_if) auto
  have sums: "\<forall>combination\<in>{[[0, 4, 5], [1, 2, 3]], [[1, 3, 5], [0, 2, 4]],
        [[0, 1, 2, 5], [3, 4]], [[2, 3, 4], [0, 1, 5]], [[0, 1, 3, 4], [2, 5 :: nat]]}.
      \<exists>a b. combination = [a, b] \<and>
        sum_list (map ((!) [1, 2, 3, 4, 5, 6 :: rat]) a) = 12 \<and>
        sum_list (map ((!) [1, 2, 3, 4, 5, 6 :: rat]) b) = 9 \<and>
        set a \<inter> set b = {}"
    by simp
  from run len els sums show ?thesis
    by simp
qed

theorem end_to_end_scenario_witness:
  "\<exists>combinations.
     find_unique_solutions sorted_list_of_set [1, 2, 3, 4, 5, 6] [12, 9] (1 / 10000) 3 =
       Inr combinations \<and>
     length combinations = 5 \<and>
     set combinations =
       {[[0, 4, 5], [1, 2, 3]], [[1, 3, 5], [0, 2, 4]], [[0, 1, 2, 5], [3, 4]],
        [[2, 3, 4], [0, 1, 5]], [[0, 1, 3, 4], [2, 5]]}"
proof -
  have h: "\<forall>S::SOLUTION set. finite S \<longrightarrow>
      set (sorted_list_of_set S) = S \<and> distinct (sorted_list_of_set S)"
    by simp
  from end_to_end_scenario [OF h] show ?thesis
    by blast
qed

end
